theory Spec2Isabelle
  imports Complex_Main "HOL-Library.Multiset"
begin

section \<open>The sourcing engine of \<open>app.py\<close>: data\<close>

text \<open>
  The program is one Streamlit script. Its logic is three functions
  (\<open>fetch_repos\<close>, \<open>get_star_velocity\<close>, \<open>bucket_repo\<close>) and the block run when the
  button is pressed. Everything the script receives from outside (HTTP replies, the clock,
  the sidebar widgets) is an argument of the model.

  Python integers are \<open>int\<close>. A naive \<open>datetime\<close> is an \<open>int\<close>, its number of
  microseconds on the time line; \<open>timedelta(days=d)\<close> is a number of microseconds.
\<close>

type_synonym datetime = int

definition timedelta_days :: "int \<Rightarrow> int" where
  "timedelta_days d = d * 86400000000"

text \<open>
  The exceptions the two \<open>try\<close> blocks can meet. All of them are subclasses of
  \<open>Exception\<close>, which is what both handlers catch.
\<close>

datatype exn = RequestException | JSONDecodeError | TypeError | AttributeError | ValueError

text \<open>
  What \<open>star.get("starred_at")\<close> finds in one element of a stargazer page:
  the key may be absent (\<open>get\<close> gives \<open>None\<close>), hold \<open>null\<close>, the empty string, a string in
  the format \<open>%Y-%m-%dT%H:%M:%SZ\<close> (given by the datetime it denotes), another non-empty
  string, or a value that is not a string (given by its truthiness).
\<close>

datatype starred_at = Absent | Null | Str0 | StrTime datetime | StrOther | Other bool

text \<open>An element of a page is a JSON object, or a value that has no \<open>get\<close> method.\<close>

datatype star = Obj starred_at | NonObj

text \<open>
  The body of a reply as \<open>r.json()\<close> sees it: it does not decode, it is an array, or it is
  another JSON value (given by its truthiness). A truthy value that is not an array makes
  \<open>reversed\<close> or \<open>star.get\<close> raise \<open>TypeError\<close> or \<open>AttributeError\<close>, according to the
  value; the model writes \<open>TypeError\<close> for both.
\<close>

datatype body = Undecodable | JArray "star list" | JOther bool

text \<open>\<open>requests.get\<close> raises, or returns a reply with a status code and a body.\<close>

datatype response = TransportError | Reply int body

text \<open>The four return values of \<open>bucket_repo\<close> (in the source, four labels).\<close>

datatype bucket = BreakoutHuge | Breakout | Growing | Early

text \<open>How a block of statements ends.\<close>

datatype signal = Fallthrough | Break | Return | Raise exn

section \<open>\<open>get_star_velocity\<close>\<close>

text \<open>The local variables of the function, and the page numbers requested so far (a log).\<close>

record locals =
  count_7_days :: int
  current_page :: int
  pages_checked :: int
  requested :: "int list"

text \<open>What a call leaves behind: the returned count and the pages it requested, in order.\<close>

record outcome =
  velocity :: int
  fetches :: "int list"

definition per_page :: int where
  "per_page = 100"

definition max_pages_to_check :: int where
  "max_pages_to_check = 5"

definition last_page :: "int \<Rightarrow> int" where
  "last_page total_stars =
     (let p = (total_stars div per_page) + 1 in if p > 400 then 400 else p)"

definition truthy :: "starred_at \<Rightarrow> bool" where
  "truthy v = (case v of Absent \<Rightarrow> False | Null \<Rightarrow> False | Str0 \<Rightarrow> False
                | StrTime t \<Rightarrow> True | StrOther \<Rightarrow> True | Other b \<Rightarrow> b)"

definition star_get :: "star \<Rightarrow> exn + starred_at" where
  "star_get s = (case s of NonObj \<Rightarrow> Inl AttributeError | Obj v \<Rightarrow> Inr v)"

definition strptime :: "starred_at \<Rightarrow> exn + datetime" where
  "strptime v = (case v of StrTime t \<Rightarrow> Inr t | StrOther \<Rightarrow> Inl ValueError
                  | Str0 \<Rightarrow> Inl ValueError | _ \<Rightarrow> Inl TypeError)"

text \<open>
  The \<open>for star in reversed(data)\<close> loop, on the elements in the order the loop visits
  them, with the running count. It ends by falling through, by \<open>return\<close>, or by an
  exception; the count reached is kept in each case.
\<close>

fun scan :: "datetime \<Rightarrow> star list \<Rightarrow> int \<Rightarrow> signal \<times> int" where
  "scan cutoff_date [] c = (Fallthrough, c)"
| "scan cutoff_date (s # ss) c =
     (case star_get s of
        Inl e \<Rightarrow> (Raise e, c)
      | Inr starred_at_str \<Rightarrow>
          if \<not> truthy starred_at_str then scan cutoff_date ss c
          else (case strptime starred_at_str of
                  Inl e \<Rightarrow> (Raise e, c)
                | Inr t \<Rightarrow>
                    if t > cutoff_date then scan cutoff_date ss (c + 1)
                    else (Return, c)))"

text \<open>
  The body of the \<open>try\<close> in one iteration of the \<open>while\<close> loop: the request, the two
  \<open>break\<close> tests, the scan of the page, and the two updates after it.
\<close>

definition try_body :: "(int \<Rightarrow> response) \<Rightarrow> datetime \<Rightarrow> locals \<Rightarrow> signal \<times> locals" where
  "try_body fetch cutoff_date st =
     (let st1 = st\<lparr>requested := requested st @ [current_page st]\<rparr> in
      case fetch (current_page st) of
        TransportError \<Rightarrow> (Raise RequestException, st1)
      | Reply status_code b \<Rightarrow>
          if status_code \<noteq> 200 then (Break, st1)
          else (case b of
                  Undecodable \<Rightarrow> (Raise JSONDecodeError, st1)
                | JOther t \<Rightarrow> if \<not> t then (Break, st1) else (Raise TypeError, st1)
                | JArray data \<Rightarrow>
                    if data = [] then (Break, st1)
                    else (case scan cutoff_date (rev data) (count_7_days st1) of
                            (Fallthrough, c) \<Rightarrow>
                              (Fallthrough, st1\<lparr>count_7_days := c,
                                               current_page := current_page st1 - 1,
                                               pages_checked := pages_checked st1 + 1\<rparr>)
                          | (sig, c) \<Rightarrow> (sig, st1\<lparr>count_7_days := c\<rparr>))))"

definition finish :: "locals \<Rightarrow> outcome" where
  "finish st = \<lparr>velocity = count_7_days st, fetches = requested st\<rparr>"

text \<open>
  The \<open>while\<close> loop. \<open>except Exception: break\<close> turns every exception of the body into
  a \<open>break\<close>; \<open>return count_7_days\<close> inside the scan and the one after the loop return
  the same variable.
\<close>

function walk :: "(int \<Rightarrow> response) \<Rightarrow> datetime \<Rightarrow> locals \<Rightarrow> outcome" where
  "walk fetch cutoff_date st =
     (if pages_checked st < max_pages_to_check \<and> current_page st > 0 then
        (case try_body fetch cutoff_date st of
           (Fallthrough, st') \<Rightarrow> walk fetch cutoff_date st'
         | (Break, st') \<Rightarrow> finish st'
         | (Return, st') \<Rightarrow> finish st'
         | (Raise e, st') \<Rightarrow> finish st')
      else finish st)"
  by pat_completeness auto
termination
  by (relation "measure (\<lambda>(fetch, cutoff_date, st). nat (max_pages_to_check - pages_checked st))")
     (auto simp: try_body_def Let_def
        split: response.splits body.splits if_splits prod.splits signal.splits)

text \<open>
  The function itself. \<open>owner\<close> and \<open>repo\<close> only select the listing that is requested:
  \<open>stargazers owner repo page\<close> is the reply to the request for that page (100 per page).
  \<open>now\<close> is the value of \<open>datetime.now()\<close> in this call.
\<close>

definition get_star_velocity ::
  "(string \<Rightarrow> string \<Rightarrow> int \<Rightarrow> response) \<Rightarrow> datetime \<Rightarrow> string \<Rightarrow> string \<Rightarrow> int \<Rightarrow> outcome" where
  "get_star_velocity stargazers now owner repo total_stars =
     (if total_stars = 0 then \<lparr>velocity = 0, fetches = []\<rparr>
      else walk (stargazers owner repo) (now - timedelta_days 7)
             \<lparr>count_7_days = 0, current_page = last_page total_stars,
              pages_checked = 0, requested = []\<rparr>)"

section \<open>\<open>bucket_repo\<close>\<close>

definition bucket_repo :: "int \<Rightarrow> int \<Rightarrow> bucket" where
  "bucket_repo v stars =
     (if stars > 40000 \<and> v = 0 then BreakoutHuge
      else if v > 50 then Breakout
      else if v > 10 then Growing
      else Early)"

text \<open>
  The classifier as the specification words it: a list of rules, each a condition and a
  tier, tried in order; the first rule whose condition holds gives the tier.
\<close>

fun first_match :: "((int \<Rightarrow> int \<Rightarrow> bool) \<times> bucket) list \<Rightarrow> int \<Rightarrow> int \<Rightarrow> bucket option" where
  "first_match [] v s = None"
| "first_match ((cond, tier) # rules) v s = (if cond v s then Some tier else first_match rules v s)"

definition classify_rules :: "((int \<Rightarrow> int \<Rightarrow> bool) \<times> bucket) list" where
  "classify_rules =
     [(\<lambda>v s. s > 40000 \<and> v = 0, BreakoutHuge),
      (\<lambda>v s. v > 50, Breakout),
      (\<lambda>v s. v > 10, Growing),
      (\<lambda>v s. True, Early)]"

definition classify :: "int \<Rightarrow> int \<Rightarrow> bucket option" where
  "classify v s = first_match classify_rules v s"

section \<open>\<open>fetch_repos\<close>\<close>

text \<open>
  One item of the search reply, with the keys the script reads
  (\<open>owner_login\<close> is \<open>repo['owner']['login']\<close>; the description may be \<open>null\<close>).
\<close>

record repo =
  name :: string
  description :: "string option"
  stargazers_count :: int
  html_url :: string
  owner_login :: string

text \<open>
  The body of the search reply: it does not decode, it is a JSON object (with the array
  under \<open>items\<close>, if the key is there), or it is a JSON value without a \<open>get\<close> method.
\<close>

datatype search_body = SUndecodable | SObject "repo list option" | SOther

datatype search_response = STransportError | SReply int search_body

text \<open>The body of the \<open>try\<close> in \<open>fetch_repos\<close>, and the function with its handler.\<close>

definition fetch_repos_try :: "search_response \<Rightarrow> exn + repo list" where
  "fetch_repos_try response =
     (case response of
        STransportError \<Rightarrow> Inl RequestException
      | SReply status_code b \<Rightarrow>
          if status_code \<noteq> 200 then Inr []
          else (case b of
                  SUndecodable \<Rightarrow> Inl JSONDecodeError
                | SOther \<Rightarrow> Inl AttributeError
                | SObject None \<Rightarrow> Inr []
                | SObject (Some items) \<Rightarrow> Inr items))"

text \<open>
  \<open>search topic limit\<close> is the reply to the search request for \<open>topic\<close> with
  \<open>per_page = limit\<close>. The decorator \<open>st.cache_data\<close> keeps results for an hour; the model
  is the function body, that is, a call that issues the request.
\<close>

definition fetch_repos :: "(string \<Rightarrow> int \<Rightarrow> search_response) \<Rightarrow> string \<Rightarrow> int \<Rightarrow> repo list" where
  "fetch_repos search topic limit =
     (case fetch_repos_try (search topic limit) of Inl e \<Rightarrow> [] | Inr items \<Rightarrow> items)"

section \<open>The scan block and the script\<close>

text \<open>
  The outside world of one run of the script: the search endpoint, the stargazer
  listings, and the clock, read once in each call of \<open>get_star_velocity\<close>
  (\<open>clock i\<close> is the reading in the call for the repository at index \<open>i\<close>).
\<close>

record world =
  search_endpoint :: "string \<Rightarrow> int \<Rightarrow> search_response"
  stargazers_endpoint :: "string \<Rightarrow> string \<Rightarrow> int \<Rightarrow> response"
  clock :: "nat \<Rightarrow> datetime"

text \<open>One dictionary appended to \<open>results\<close> (the key \<open>Velocity (7d)\<close> is \<open>Velocity_7d\<close>).\<close>

record row =
  Name :: string
  Description :: "string option"
  Stars :: int
  Velocity_7d :: int
  Bucket :: bucket
  URL :: string
  Owner :: string

text \<open>The body of the \<open>for i, repo in enumerate(repos)\<close> loop, up to the \<open>append\<close>.\<close>

definition analyze :: "world \<Rightarrow> nat \<Rightarrow> repo \<Rightarrow> row" where
  "analyze w i r =
     (let v = velocity (get_star_velocity (stargazers_endpoint w) (clock w i)
                          (owner_login r) (name r) (stargazers_count r));
          b = bucket_repo v (stargazers_count r)
      in \<lparr>Name = name r, Description = description r, Stars = stargazers_count r,
          Velocity_7d = v, Bucket = b, URL = html_url r, Owner = owner_login r\<rparr>)"

fun scan_loop :: "world \<Rightarrow> nat \<Rightarrow> repo list \<Rightarrow> row list \<Rightarrow> row list" where
  "scan_loop w i [] results = results"
| "scan_loop w i (r # rs) results = scan_loop w (Suc i) rs (results @ [analyze w i r])"

text \<open>
  \<open>df.sort_values(by="Velocity (7d)", ascending=False)\<close>: the rows by descending velocity.
  The order pandas gives rows of equal velocity is not fixed by the script (the default
  sort kind is not stable) and can differ from the model's, which keeps them in their
  order; every statement below holds for any order of such rows.
\<close>

definition sort_values_desc :: "row list \<Rightarrow> row list" where
  "sort_values_desc rows = sort_key (\<lambda>r. - Velocity_7d r) rows"

text \<open>
  The block under \<open>if run_pressed\<close>, up to the sorted data frame: the rows shown, none
  when \<open>results\<close> is empty (the script then shows a warning).
\<close>

definition run_scan :: "world \<Rightarrow> string \<Rightarrow> row list" where
  "run_scan w topic =
     (let repos = fetch_repos (search_endpoint w) topic 30;
          results = scan_loop w 0 repos []
      in if results \<noteq> [] then sort_values_desc results else [])"




section \<open>Event histories and their listings\<close>

text \<open>
  The stargazer endpoint as the specification describes it: the events of a repository,
  oldest first, in pages of 100 numbered from 1. A history is the list of the events'
  timestamps, oldest first; every request succeeds, and a page past the end is empty.
\<close>

definition listing :: "datetime list \<Rightarrow> int \<Rightarrow> response" where
  "listing history page =
     Reply 200 (JArray (map (\<lambda>t. Obj (StrTime t)) (take 100 (drop (100 * nat (page - 1)) history))))"

text \<open>The number of events of a history that lie in the window: strictly after the cutoff.\<close>

definition in_window :: "datetime \<Rightarrow> datetime list \<Rightarrow> nat" where
  "in_window cutoff_date history = length (filter (\<lambda>t. t > cutoff_date) history)"

text \<open>
  The number of events on the five last pages of a history of \<open>n\<close> events whose last page
  is not full: all of them when there are fewer than 500, otherwise four full pages and
  the last one.
\<close>

definition reach :: "nat \<Rightarrow> nat" where
  "reach n = (if n < 500 then n else 400 + n mod 100)"

text \<open>The number of events a reply carries.\<close>

definition events_on :: "response \<Rightarrow> nat" where
  "events_on r = (case r of Reply status_code (JArray data) \<Rightarrow> length data | _ \<Rightarrow> 0)"

text \<open>
  The number of pages of a history of \<open>total_stars\<close> events, as the specification gives
  it: \<open>N = ceil(total_stars / 100)\<close>.
\<close>

definition history_pages :: "int \<Rightarrow> int" where
  "history_pages total_stars = \<lceil>real_of_int total_stars / 100\<rceil>"

section \<open>Kinds of replies and of events\<close>

text \<open>
  A request for a page that gives the scan nothing: the transport fails, the status is
  not 200, the body does not decode, or the decoded body is not a non-empty array.
\<close>

definition failed_fetch :: "response \<Rightarrow> bool" where
  "failed_fetch r =
     (case r of TransportError \<Rightarrow> True
      | Reply status_code b \<Rightarrow>
          status_code \<noteq> 200 \<or> (case b of Undecodable \<Rightarrow> True | JArray data \<Rightarrow> data = [] | JOther t \<Rightarrow> True))"

definition counted :: "datetime \<Rightarrow> star \<Rightarrow> bool" where
  "counted cutoff_date s = (case s of Obj (StrTime t) \<Rightarrow> t > cutoff_date | _ \<Rightarrow> False)"

definition skipped :: "star \<Rightarrow> bool" where
  "skipped s = (s = Obj Absent \<or> s = Obj Null \<or> s = Obj Str0 \<or> s = Obj (Other False))"

definition raising :: "star \<Rightarrow> bool" where
  "raising s = (s = NonObj \<or> s = Obj StrOther \<or> s = Obj (Other True))"

definition failed_search :: "search_response \<Rightarrow> bool" where
  "failed_search r =
     (case r of STransportError \<Rightarrow> True
      | SReply status_code b \<Rightarrow> status_code \<noteq> 200 \<or> b = SUndecodable)"

section \<open>Example worlds\<close>

text \<open>
  Two repositories: the listing of the big one answers 500; the small one has three
  events, two of them in the week before the clock's reading.
\<close>

definition example_repos :: "repo list" where
  "example_repos =
     [\<lparr>name = ''big'', description = None, stargazers_count = 50000,
       html_url = ''https://github.com/a/big'', owner_login = ''a''\<rparr>,
      \<lparr>name = ''small'', description = Some ''a small one'', stargazers_count = 3,
       html_url = ''https://github.com/b/small'', owner_login = ''b''\<rparr>]"

definition example_world :: world where
  "example_world =
     \<lparr>search_endpoint = (\<lambda>topic limit. SReply 200 (SObject (Some example_repos))),
      stargazers_endpoint = (\<lambda>owner repo page.
         if repo = ''big'' then Reply 500 Undecodable
         else Reply 200 (JArray [Obj (StrTime 5), Obj (StrTime 10), Obj (StrTime 11)])),
      clock = (\<lambda>i. 604800000007)\<rparr>"

text \<open>A world in which every request fails.\<close>

definition broken_world :: world where
  "broken_world =
     \<lparr>search_endpoint = (\<lambda>topic limit. SReply 500 SUndecodable),
      stargazers_endpoint = (\<lambda>owner repo page. TransportError),
      clock = (\<lambda>i. 0)\<rparr>"

section \<open>Properties\<close>

subsection \<open>The loop\<close>

lemma try_body_Fallthrough:
  "try_body fetch cutoff_date st = (Fallthrough, st') \<Longrightarrow>
     pages_checked st' = pages_checked st + 1 \<and> current_page st' = current_page st - 1"
  by (auto simp: try_body_def Let_def
      split: response.splits body.splits if_splits prod.splits signal.splits)

lemma scan_bounds:
  "scan cutoff_date xs c = (sig, c') \<Longrightarrow> c \<le> c' \<and> c' \<le> c + int (length xs)"
proof (induction xs arbitrary: c)
  case Nil
  then show ?case by simp
next
  case (Cons s ss)
  then show ?case
    by (fastforce split: sum.splits if_splits)
qed

lemma try_body_requested:
  "try_body fetch cutoff_date st = (sig, st') \<Longrightarrow>
     requested st' = requested st @ [current_page st]"
  by (auto simp: try_body_def Let_def
      split: response.splits body.splits if_splits prod.splits signal.splits)

lemma try_body_count:
  assumes "try_body fetch cutoff_date st = (sig, st')"
  shows "count_7_days st \<le> count_7_days st' \<and>
         count_7_days st' \<le> count_7_days st + int (events_on (fetch (current_page st)))"
proof (cases "fetch (current_page st)")
  case TransportError
  with assms show ?thesis by (auto simp: try_body_def Let_def)
next
  case (Reply code b)
  show ?thesis
  proof (cases b)
    case (JArray data)
    obtain sg c where sc: "scan cutoff_date (rev data) (count_7_days st) = (sg, c)"
      by (cases "scan cutoff_date (rev data) (count_7_days st)")
    from scan_bounds [OF sc] have b: "count_7_days st \<le> c \<and> c \<le> count_7_days st + int (length data)"
      by simp
    have ev: "code = 200 \<Longrightarrow> events_on (fetch (current_page st)) = length data"
      using Reply JArray by (simp add: events_on_def)
    from assms Reply JArray sc b ev show ?thesis
      by (auto simp: try_body_def Let_def split: if_splits signal.splits)
  qed (use assms Reply in \<open>auto simp: try_body_def Let_def split: if_splits\<close>)
qed

declare walk.simps [simp del]

lemma walk_stop:
  "\<not> (pages_checked st < max_pages_to_check \<and> current_page st > 0) \<Longrightarrow>
     walk fetch cutoff_date st = finish st"
  by (subst walk.simps) auto

lemma walk_step:
  "pages_checked st < max_pages_to_check \<and> current_page st > 0 \<Longrightarrow>
     try_body fetch cutoff_date st = (sg, st') \<Longrightarrow>
     walk fetch cutoff_date st = (if sg = Fallthrough then walk fetch cutoff_date st' else finish st')"
  by (subst walk.simps) (simp split: signal.splits)

lemma walk_invariant:
  "\<exists>new. fetches (walk fetch cutoff_date st) = requested st @ new
     \<and> int (length new) \<le> max 0 (max_pages_to_check - pages_checked st)
     \<and> count_7_days st \<le> velocity (walk fetch cutoff_date st)
     \<and> velocity (walk fetch cutoff_date st)
         \<le> count_7_days st + (\<Sum>p\<leftarrow>new. int (events_on (fetch p)))"
proof (induction fetch cutoff_date st rule: walk.induct)
  case (1 fetch cutoff_date st)
  show ?case
  proof (cases "pages_checked st < max_pages_to_check \<and> current_page st > 0")
    case False
    have "fetches (finish st) = requested st @ []" by (simp add: finish_def)
    then show ?thesis unfolding walk_stop [OF False] by (fastforce simp: finish_def)
  next
    case True
    obtain sg st' where tb: "try_body fetch cutoff_date st = (sg, st')"
      by (cases "try_body fetch cutoff_date st")
    note rq = try_body_requested [OF tb]
    note ct = try_body_count [OF tb]
    show ?thesis
    proof (cases "sg = Fallthrough")
      case False
      with walk_step [OF True tb] have w: "walk fetch cutoff_date st = finish st'"
        by simp
      have "fetches (finish st') = requested st @ [current_page st]"
        by (simp add: finish_def rq)
      moreover have "int (length [current_page st]) \<le> max 0 (max_pages_to_check - pages_checked st)"
        using True by simp
      moreover have "count_7_days st \<le> velocity (finish st')"
        using ct by (simp add: finish_def)
      moreover have "velocity (finish st')
          \<le> count_7_days st + (\<Sum>p\<leftarrow>[current_page st]. int (events_on (fetch p)))"
        using ct by (simp add: finish_def)
      ultimately show ?thesis unfolding w by blast
    next
      case sgF: True
      with walk_step [OF True tb] have w: "walk fetch cutoff_date st = walk fetch cutoff_date st'"
        by simp
      from "1.IH" [OF True tb [symmetric, unfolded sgF] refl] obtain new where
        n: "fetches (walk fetch cutoff_date st') = requested st' @ new"
           "int (length new) \<le> max 0 (max_pages_to_check - pages_checked st')"
           "count_7_days st' \<le> velocity (walk fetch cutoff_date st')"
           "velocity (walk fetch cutoff_date st')
              \<le> count_7_days st' + (\<Sum>p\<leftarrow>new. int (events_on (fetch p)))"
        by blast
      from try_body_Fallthrough [OF tb [unfolded sgF]]
      have pc: "pages_checked st' = pages_checked st + 1" by simp
      have "fetches (walk fetch cutoff_date st') = requested st @ (current_page st # new)"
        using n(1) rq by simp
      moreover have "int (length (current_page st # new)) \<le> max 0 (max_pages_to_check - pages_checked st)"
        using n(2) pc True by simp
      moreover have "count_7_days st \<le> velocity (walk fetch cutoff_date st')"
        using n(3) ct by simp
      moreover have "velocity (walk fetch cutoff_date st')
          \<le> count_7_days st + (\<Sum>p\<leftarrow>current_page st # new. int (events_on (fetch p)))"
        using n(4) ct by simp
      ultimately show ?thesis unfolding w by blast
    qed
  qed
qed

lemma walk_bounds:
  obtains new where
    "fetches (walk fetch cutoff_date st) = requested st @ new"
    "int (length new) \<le> max 0 (max_pages_to_check - pages_checked st)"
    "count_7_days st \<le> velocity (walk fetch cutoff_date st)"
    "velocity (walk fetch cutoff_date st)
       \<le> count_7_days st + (\<Sum>p\<leftarrow>new. int (events_on (fetch p)))"
  using walk_invariant [of fetch cutoff_date st] by blast

lemma walk_first_request:
  assumes "pages_checked st < max_pages_to_check \<and> current_page st > 0"
  shows "\<exists>rest. fetches (walk fetch cutoff_date st) = requested st @ current_page st # rest"
proof -
  obtain sg st' where tb: "try_body fetch cutoff_date st = (sg, st')"
    by (cases "try_body fetch cutoff_date st")
  note rq = try_body_requested [OF tb]
  show ?thesis
  proof (cases "sg = Fallthrough")
    case True
    obtain new where "fetches (walk fetch cutoff_date st') = requested st' @ new"
      by (rule walk_bounds)
    then show ?thesis using walk_step [OF assms tb] True rq by simp
  next
    case False
    then show ?thesis using walk_step [OF assms tb] rq by (simp add: finish_def)
  qed
qed

lemma last_page_min: "last_page n = min (n div 100 + 1) 400"
  by (simp add: last_page_def per_page_def Let_def min_def)

subsection \<open>C1: the bounds of the returned count\<close>

text \<open>
  C1, as amended. For every call of \<open>get_star_velocity\<close>, whatever the replies, the
  returned count is at least 0 and at most the number of events carried by the pages the
  call requested; so it is at most \<open>total_stars\<close> whenever those pages carry at most
  \<open>total_stars\<close> events.
\<close>

theorem velocity_within_events_fetched:
  "0 \<le> velocity (get_star_velocity stargazers now owner repo total_stars)
   \<and> velocity (get_star_velocity stargazers now owner repo total_stars)
       \<le> (\<Sum>p\<leftarrow>fetches (get_star_velocity stargazers now owner repo total_stars).
             int (events_on (stargazers owner repo p)))
   \<and> ((\<Sum>p\<leftarrow>fetches (get_star_velocity stargazers now owner repo total_stars).
             int (events_on (stargazers owner repo p))) \<le> total_stars
        \<longrightarrow> velocity (get_star_velocity stargazers now owner repo total_stars) \<le> total_stars)"
proof (cases "total_stars = 0")
  case True
  then show ?thesis by (simp add: get_star_velocity_def)
next
  case False
  let ?st = "\<lparr>count_7_days = 0, current_page = last_page total_stars,
              pages_checked = 0, requested = []\<rparr>"
  have g: "get_star_velocity stargazers now owner repo total_stars
             = walk (stargazers owner repo) (now - timedelta_days 7) ?st"
    using False by (simp add: get_star_velocity_def)
  obtain new where
    "fetches (walk (stargazers owner repo) (now - timedelta_days 7) ?st) = requested ?st @ new"
    "count_7_days ?st \<le> velocity (walk (stargazers owner repo) (now - timedelta_days 7) ?st)"
    "velocity (walk (stargazers owner repo) (now - timedelta_days 7) ?st)
       \<le> count_7_days ?st + (\<Sum>p\<leftarrow>new. int (events_on (stargazers owner repo p)))"
    by (rule walk_bounds)
  then show ?thesis unfolding g by simp
qed

text \<open>
  C1, as stated, fails: with \<open>total_stars = 1\<close> and a first page that carries two events
  of the last week (the search result saying 1 is up to an hour old), the call returns 2.
\<close>

theorem velocity_exceeds_total_stars:
  "\<not> (velocity (get_star_velocity (\<lambda>owner repo page. Reply 200 (JArray [Obj (StrTime 10), Obj (StrTime 11)]))
          604800000000 ''o'' ''r'' 1) \<le> 1)"
  by code_simp

text \<open>
  C1, witness: the same page with \<open>total_stars = 2\<close>; the page carries 2 events and the
  count returned is at most 2.
\<close>

theorem velocity_within_events_fetched_witness:
  "(\<Sum>p\<leftarrow>fetches (get_star_velocity (\<lambda>owner repo page. Reply 200 (JArray [Obj (StrTime 10), Obj (StrTime 11)]))
          604800000000 ''o'' ''r'' 2).
       int (events_on (Reply 200 (JArray [Obj (StrTime 10), Obj (StrTime 11)])))) \<le> 2
   \<and> velocity (get_star_velocity (\<lambda>owner repo page. Reply 200 (JArray [Obj (StrTime 10), Obj (StrTime 11)]))
          604800000000 ''o'' ''r'' 2) \<le> 2"
proof -
  have h: "(\<Sum>p\<leftarrow>fetches (get_star_velocity (\<lambda>owner repo page. Reply 200 (JArray [Obj (StrTime 10), Obj (StrTime 11)]))
          604800000000 ''o'' ''r'' 2).
       int (events_on (Reply 200 (JArray [Obj (StrTime 10), Obj (StrTime 11)])))) \<le> 2"
    by code_simp
  show ?thesis
    using h velocity_within_events_fetched
      [of "\<lambda>owner repo page. Reply 200 (JArray [Obj (StrTime 10), Obj (StrTime 11)])"
          604800000000 "''o''" "''r''" 2]
    by simp
qed

subsection \<open>C2: the count on an ordered history\<close>

lemma scan_stamps:
  "scan cutoff_date (map (\<lambda>t. Obj (StrTime t)) ts) c =
     (if \<forall>t\<in>set ts. t > cutoff_date then (Fallthrough, c + int (length ts))
      else (Return, c + int (length (takeWhile (\<lambda>t. t > cutoff_date) ts))))"
  by (induction ts arbitrary: c) (auto simp: star_get_def truthy_def strptime_def)

lemma drop_split:
  "a \<le> b \<Longrightarrow> drop a ys = drop a (take b ys) @ drop b ys"
proof -
  assume ab: "a \<le> b"
  have "drop a ys = drop a (take b ys @ drop b ys)" by simp
  also have "\<dots> = drop a (take b ys) @ drop (a - length (take b ys)) (drop b ys)"
    by (rule drop_append)
  also have "drop (a - length (take b ys)) (drop b ys) = drop b ys"
  proof (cases "b \<le> length ys")
    case True
    then show ?thesis using ab by simp
  next
    case False
    then show ?thesis by simp
  qed
  finally show ?thesis .
qed

lemma listing_page:
  "0 < p \<Longrightarrow>
     listing h (int p) = Reply 200 (JArray (map (\<lambda>t. Obj (StrTime t)) (drop (100 * (p - 1)) (take (100 * p) h))))"
proof -
  assume p: "0 < p"
  have "take 100 (drop (100 * (p - 1)) h) = drop (100 * (p - 1)) (take (100 + 100 * (p - 1)) h)"
    by (rule take_drop)
  moreover have "100 + 100 * (p - 1) = 100 * p" using p by simp
  moreover have "nat (int p - 1) = p - 1" by simp
  ultimately show ?thesis by (simp add: listing_def)
qed

lemma region_split:
  assumes "0 < p"
  shows "drop (100 * (p - Suc k)) (take (100 * p) h)
           = drop (100 * (p - 1 - k)) (take (100 * (p - 1)) h) @ drop (100 * (p - 1)) (take (100 * p) h)"
proof -
  have le: "100 * (p - Suc k) \<le> 100 * (p - 1)" by simp
  have "take (100 * (p - 1)) (take (100 * p) h) = take (100 * (p - 1)) h"
    by (simp add: min_def)
  moreover have "p - Suc k = p - 1 - k" by simp
  ultimately show ?thesis
    using drop_split [OF le, of "take (100 * p) h"] by simp
qed

lemma walk_listing:
  assumes "k \<le> 5" and "p = 0 \<or> 100 * (p - 1) < length h"
  shows "velocity (walk (listing h) cutoff_date
            \<lparr>count_7_days = c, current_page = int p, pages_checked = 5 - int k, requested = rq\<rparr>)
         = c + int (length (takeWhile (\<lambda>t. t > cutoff_date)
                              (rev (drop (100 * (p - k)) (take (100 * p) h)))))"
  using assms
proof (induction k arbitrary: p c rq)
  case 0
  then show ?case
    by (simp add: walk_stop max_pages_to_check_def finish_def)
next
  case (Suc k)
  let ?st = "\<lparr>count_7_days = c, current_page = int p, pages_checked = 5 - int (Suc k), requested = rq\<rparr>"
  show ?case
  proof (cases "p = 0")
    case True
    then show ?thesis
      by (simp add: walk_stop finish_def)
  next
    case False
    then have p: "0 < p" and ne: "100 * (p - 1) < length h"
      using Suc.prems by simp_all
    let ?P = "drop (100 * (p - 1)) (take (100 * p) h)"
    let ?rest = "drop (100 * (p - 1 - k)) (take (100 * (p - 1)) h)"
    let ?Q = "\<lambda>t. t > cutoff_date"
    have Pne: "?P \<noteq> []" using ne p by simp
    have cond: "pages_checked ?st < max_pages_to_check \<and> current_page ?st > 0"
      using p by (simp add: max_pages_to_check_def)
    have region: "rev (drop (100 * (p - Suc k)) (take (100 * p) h)) = rev ?P @ rev ?rest"
      by (simp only: region_split [OF p, of k h] rev_append)
    have sc: "scan cutoff_date (rev (map (\<lambda>t. Obj (StrTime t)) ?P)) c =
        (if \<forall>t\<in>set ?P. ?Q t then (Fallthrough, c + int (length ?P))
         else (Return, c + int (length (takeWhile ?Q (rev ?P)))))"
      using scan_stamps [of cutoff_date "rev ?P" c] by (simp add: rev_map)
    show ?thesis
    proof (cases "\<forall>t\<in>set ?P. ?Q t")
      case True
      let ?st' = "\<lparr>count_7_days = c + int (length ?P), current_page = int (p - 1),
                   pages_checked = 5 - int k, requested = rq @ [int p]\<rparr>"
      have tb: "try_body (listing h) cutoff_date ?st = (Fallthrough, ?st')"
        using True Pne p sc
        by (simp add: try_body_def listing_page [OF p] Let_def of_nat_diff)
      have nxt: "p - 1 = 0 \<or> 100 * (p - 1 - 1) < length h"
        using ne by auto
      have k5: "k \<le> 5" using Suc.prems by simp
      have "velocity (walk (listing h) cutoff_date ?st) = velocity (walk (listing h) cutoff_date ?st')"
        using walk_step [OF cond tb] by simp
      also have "\<dots> = c + int (length ?P) + int (length (takeWhile ?Q (rev ?rest)))"
        using Suc.IH [OF k5 nxt, of "c + int (length ?P)" "rq @ [int p]"] by simp
      also have "\<dots> = c + int (length (takeWhile ?Q (rev ?P @ rev ?rest)))"
      proof -
        have "takeWhile ?Q (rev ?P @ rev ?rest) = rev ?P @ takeWhile ?Q (rev ?rest)"
          using True by (intro takeWhile_append2) simp
        then show ?thesis by simp
      qed
      finally show ?thesis unfolding region .
    next
      case False
      let ?st' = "\<lparr>count_7_days = c + int (length (takeWhile ?Q (rev ?P))), current_page = int p,
                   pages_checked = 5 - int (Suc k), requested = rq @ [int p]\<rparr>"
      have tb: "try_body (listing h) cutoff_date ?st = (Return, ?st')"
        using False Pne p sc
        by (simp add: try_body_def listing_page [OF p] Let_def)
      have "velocity (walk (listing h) cutoff_date ?st) = c + int (length (takeWhile ?Q (rev ?P)))"
        using walk_step [OF cond tb] by (simp add: finish_def)
      moreover from False obtain t where "t \<in> set (rev ?P)" "\<not> ?Q t" by auto
      then have "takeWhile ?Q (rev ?P @ rev ?rest) = takeWhile ?Q (rev ?P)"
        by (rule takeWhile_append1)
      ultimately show ?thesis unfolding region by simp
    qed
  qed
qed

lemma takeWhile_filter_descending:
  fixes xs :: "int list"
  shows "sorted_wrt (>) xs \<Longrightarrow>
     takeWhile (\<lambda>t. t > cutoff_date) xs = filter (\<lambda>t. t > cutoff_date) xs"
proof (induction xs)
  case Nil
  then show ?case by simp
next
  case (Cons x xs)
  show ?case
  proof (cases "x > cutoff_date")
    case True
    then show ?thesis using Cons by simp
  next
    case False
    have "\<forall>y\<in>set xs. \<not> y > cutoff_date"
      using Cons.prems False by auto
    then have "filter (\<lambda>t. t > cutoff_date) xs = []"
      by (simp add: filter_empty_conv)
    then show ?thesis using False by simp
  qed
qed

lemma in_window_drop:
  fixes h :: "int list"
  assumes "sorted_wrt (<) h"
  shows "length (filter (\<lambda>t. t > cutoff_date) (drop d h))
           = min (length h - d) (length (filter (\<lambda>t. t > cutoff_date) h))"
proof -
  let ?Q = "\<lambda>t. t > cutoff_date"
  have split: "filter ?Q h = filter ?Q (take d h) @ filter ?Q (drop d h)"
    by (metis append_take_drop_id filter_append)
  show ?thesis
  proof (cases "\<forall>t\<in>set (drop d h). ?Q t")
    case True
    then have "filter ?Q (drop d h) = drop d h" by simp
    then have "length (filter ?Q (drop d h)) = length h - d" by simp
    moreover have "length (filter ?Q h) \<ge> length (filter ?Q (drop d h))"
      using split by (metis le_add2 length_append)
    ultimately show ?thesis by simp
  next
    case False
    then obtain y where y: "y \<in> set (drop d h)" "\<not> ?Q y" by auto
    have "sorted_wrt (<) (take d h @ drop d h)" using assms by simp
    then have "\<forall>x\<in>set (take d h). x < y"
      using y(1) unfolding sorted_wrt_append by blast
    then have "\<forall>x\<in>set (take d h). \<not> ?Q x" using y(2) by auto
    then have "filter ?Q (take d h) = []" by (simp add: filter_empty_conv)
    then have "filter ?Q h = filter ?Q (drop d h)" using split by simp
    moreover have "length (filter ?Q (drop d h)) \<le> length h - d"
      by (metis length_drop length_filter_le)
    ultimately show ?thesis by simp
  qed
qed

lemma reach_last_pages:
  "n - 100 * (n div 100 + 1 - 5) = reach n"
proof (cases "n < 500")
  case True
  then have "n div 100 + 1 - 5 = 0" by simp
  then show ?thesis using True by (simp add: reach_def)
next
  case False
  have "n = 100 * (n div 100) + n mod 100" by simp
  moreover have "n div 100 \<ge> 5" using False by simp
  ultimately have "n - 100 * (n div 100 + 1 - 5) = 400 + n mod 100" by linarith
  then show ?thesis using False by (simp add: reach_def)
qed

text \<open>
  C2, as amended. Take a history of \<open>n\<close> events with strictly increasing timestamps
  (strictly descending in the order of the scan), listed 100 per page, oldest first, with
  \<open>total_stars = n\<close>, \<open>n\<close> below 40000 and not a multiple of 100 (or \<open>n = 0\<close>). The pages
  the walk can visit hold \<open>reach n\<close> events: all \<open>n\<close> below 500, otherwise
  \<open>400 + n mod 100\<close>. \<open>get_star_velocity\<close> returns the number of events strictly after
  the cutoff (an event at the cutoff is not counted) when that number is at most
  \<open>reach n\<close>, and \<open>reach n\<close>, an undercount, when it is larger.
\<close>

theorem velocity_on_ascending_history:
  assumes "sorted_wrt (<) history"
    and "history = [] \<or> length history mod 100 \<noteq> 0"
    and "length history < 40000"
  shows "velocity (get_star_velocity (\<lambda>owner repo. listing history) now owner repo (int (length history)))
           = int (min (reach (length history)) (in_window (now - timedelta_days 7) history))"
proof (cases "history = []")
  case True
  then show ?thesis by (simp add: get_star_velocity_def reach_def)
next
  case False
  let ?n = "length history"
  let ?p = "?n div 100 + 1"
  let ?cd = "now - timedelta_days 7"
  let ?Q = "\<lambda>t. t > ?cd"
  from False assms(2) have m: "?n mod 100 \<noteq> 0" by simp
  have n0: "int ?n \<noteq> 0" using False by simp
  have lp: "last_page (int ?n) = int ?p"
  proof -
    have "int ?n div 100 = int (?n div 100)" by (simp add: zdiv_int)
    moreover have "?n div 100 + 1 \<le> 400" using assms(3) by simp
    ultimately show ?thesis by (simp add: last_page_min)
  qed
  have ne: "?p = 0 \<or> 100 * (?p - 1) < ?n"
  proof -
    have "?n = 100 * (?n div 100) + ?n mod 100" by simp
    then have "100 * (?n div 100) < ?n" using m by linarith
    then show ?thesis by simp
  qed
  have whole: "take (100 * ?p) history = history"
  proof -
    have "?n \<le> 100 * ?p" by presburger
    then show ?thesis by simp
  qed
  let ?region = "rev (drop (100 * (?p - 5)) history)"
  have desc: "sorted_wrt (>) ?region"
    using sorted_wrt_drop [OF assms(1)] by (simp add: sorted_wrt_rev)
  have "velocity (get_star_velocity (\<lambda>owner repo. listing history) now owner repo (int ?n))
      = velocity (walk (listing history) ?cd
          \<lparr>count_7_days = 0, current_page = int ?p, pages_checked = 5 - int 5, requested = []\<rparr>)"
    using n0 lp by (simp add: get_star_velocity_def)
  also have "\<dots> = 0 + int (length (takeWhile ?Q (rev (drop (100 * (?p - 5)) (take (100 * ?p) history)))))"
    by (rule walk_listing [OF _ ne]) simp
  also have "\<dots> = int (length (filter ?Q ?region))"
    unfolding whole takeWhile_filter_descending [OF desc] by simp
  also have "length (filter ?Q ?region) = length (filter ?Q (drop (100 * (?p - 5)) history))"
    by (simp add: rev_filter [symmetric])
  also have "\<dots> = min (?n - 100 * (?p - 5)) (length (filter ?Q history))"
    by (rule in_window_drop [OF assms(1)])
  also have "?n - 100 * (?p - 5) = reach ?n"
    by (rule reach_last_pages)
  finally show ?thesis by (simp add: in_window_def)
qed

text \<open>
  C2, as stated, fails: a history of 501 events, strictly ascending, of which the newest
  450 are after the cutoff. 450 events are within 500 of the newest end, but the five
  pages visited (6 down to 2) hold 401 events, and the call returns 401.
\<close>

theorem partial_last_page_shortens_reach:
  "sorted_wrt (<) [1..501]
   \<and> in_window (604800000051 - timedelta_days 7) [1..501] = 450
   \<and> velocity (get_star_velocity (\<lambda>owner repo. listing [1..501]) 604800000051 ''o'' ''r'' 501) = 401"
proof -
  have "sorted_wrt (<) [1..501]" by simp
  moreover have "in_window (604800000051 - timedelta_days 7) [1..501] = 450" by code_simp
  moreover have "velocity (get_star_velocity (\<lambda>owner repo. listing [1..501]) 604800000051 ''o'' ''r'' 501) = 401"
    by code_simp
  ultimately show ?thesis by simp
qed

text \<open>
  C2, witness: 150 events, the newest 30 after the cutoff; the call returns 30.
\<close>

theorem velocity_on_ascending_history_witness:
  "sorted_wrt (<) [1..150] \<and> length [1..150::int] mod 100 \<noteq> 0 \<and> length [1..150::int] < 40000
   \<and> reach 150 = 150 \<and> in_window 120 [1..150] = 30
   \<and> velocity (get_star_velocity (\<lambda>owner repo. listing [1..150]) (120 + timedelta_days 7) ''o'' ''r'' 150) = 30"
proof -
  have h1: "sorted_wrt (<) [1..150::int]" by simp
  have l: "length [1..150::int] = 150" by simp
  have h2: "[1..150::int] = [] \<or> length [1..150::int] mod 100 \<noteq> 0" unfolding l by simp
  have h3: "length [1..150::int] < 40000" unfolding l by simp
  have r: "reach 150 = 150" by (simp add: reach_def)
  have w: "in_window 120 [1..150] = 30" by code_simp
  show ?thesis
    using velocity_on_ascending_history [OF h1 h2 h3, of "120 + timedelta_days 7" "''o''" "''r''"]
      h1 l r w
    by simp
qed

text \<open>
  When the number of events is a multiple of 100, the first page requested is past the
  end of the listing and empty, and the walk stops there: 100 events, all of the last
  week, give 0.
\<close>

lemma full_last_page_gives_zero:
  "in_window 0 [1..100] = 100
   \<and> get_star_velocity (\<lambda>owner repo. listing [1..100]) 604800000000 ''o'' ''r'' 100
       = \<lparr>velocity = 0, fetches = [2]\<rparr>"
proof -
  have "in_window 0 [1..100] = 100" by code_simp
  moreover have "get_star_velocity (\<lambda>owner repo. listing [1..100]) 604800000000 ''o'' ''r'' 100
       = \<lparr>velocity = 0, fetches = [2]\<rparr>"
    by code_simp
  ultimately show ?thesis by simp
qed

text \<open>
  Above 40000 events the walk starts at page 400, not at the last page: if the newest
  event of page 400 is not in the window, the call returns 0, whatever the later pages
  hold.
\<close>

lemma clamped_start_page_400:
  assumes "40000 < length h" and "\<not> (h ! 39999 > now - timedelta_days 7)"
  shows "velocity (get_star_velocity (\<lambda>owner repo. listing h) now owner repo (int (length h))) = 0"
proof -
  let ?cd = "now - timedelta_days 7"
  let ?Q = "\<lambda>t. t > ?cd"
  define xs where "xs = drop (100 * (400 - 5)) (take (100 * 400) h)"
  have lp: "last_page (int (length h)) = int 400"
  proof -
    have "int (length h) div 100 \<ge> 400" using assms(1) by simp
    then show ?thesis by (simp add: last_page_min)
  qed
  have ne: "(400::nat) = 0 \<or> 100 * (400 - 1) < length h"
    using assms(1) by simp
  have len: "length (take (100 * 400) h) = 40000"
    using assms(1) by simp
  have xne: "xs \<noteq> []" using len by (simp add: xs_def)
  have "last xs = last (take (100 * 400) h)"
    unfolding xs_def using len by (intro last_drop) simp
  also have "\<dots> = take (100 * 400) h ! (length (take (100 * 400) h) - 1)"
    using len by (intro last_conv_nth) auto
  also have "\<dots> = h ! 39999"
    unfolding len by simp
  finally have lst: "last xs = h ! 39999" .
  obtain ys y where split: "xs = ys @ [y]"
    using xne by (cases xs rule: rev_cases) auto
  then have "y = h ! 39999" using lst by simp
  then have tw: "takeWhile ?Q (rev xs) = []"
    using split assms(2) by simp
  have "velocity (get_star_velocity (\<lambda>owner repo. listing h) now owner repo (int (length h)))
      = velocity (walk (listing h) ?cd
          \<lparr>count_7_days = 0, current_page = int 400, pages_checked = 5 - int 5, requested = []\<rparr>)"
  proof -
    have "h \<noteq> []" using assms(1) by auto
    then show ?thesis using lp by (simp add: get_star_velocity_def)
  qed
  also have "\<dots> = 0 + int (length (takeWhile ?Q (rev xs)))"
    unfolding xs_def by (rule walk_listing [OF _ ne]) simp
  finally show ?thesis using tw by simp
qed

subsection \<open>C3: the classifier\<close>

text \<open>
  C3. \<open>bucket_repo\<close> is the ordered decision list of the specification, first match
  wins: more than 40000 stars and velocity 0 give \<open>BreakoutHuge\<close>, else velocity above 50
  gives \<open>Breakout\<close>, else velocity above 10 gives \<open>Growing\<close>, else \<open>Early\<close>. In
  particular velocity 0 with 50000 stars is \<open>BreakoutHuge\<close>, and the thresholds are
  strict: 51 is \<open>Breakout\<close>, 50 and 11 are \<open>Growing\<close>, 10 is \<open>Early\<close>, for every star
  count (the first rule needs velocity 0).
\<close>

theorem bucket_repo_decision_list:
  "classify v s = Some (bucket_repo v s)
   \<and> bucket_repo v s = (if s > 40000 \<and> v = 0 then BreakoutHuge
                        else if v > 50 then Breakout
                        else if v > 10 then Growing
                        else Early)
   \<and> bucket_repo 0 50000 = BreakoutHuge
   \<and> bucket_repo 51 x = Breakout
   \<and> bucket_repo 50 x = Growing
   \<and> bucket_repo 11 x = Growing
   \<and> bucket_repo 10 x = Early"
  by (simp add: classify_def classify_rules_def bucket_repo_def)

subsection \<open>C4: the page budget\<close>

text \<open>
  C4. A call of \<open>get_star_velocity\<close> requests at most 5 pages, and with
  \<open>total_stars = 0\<close> it returns 0 and requests none.
\<close>

theorem at_most_five_fetches:
  "length (fetches (get_star_velocity stargazers now owner repo total_stars)) \<le> 5
   \<and> get_star_velocity stargazers now owner repo 0 = \<lparr>velocity = 0, fetches = []\<rparr>"
proof -
  have "length (fetches (get_star_velocity stargazers now owner repo total_stars)) \<le> 5"
  proof (cases "total_stars = 0")
    case True
    then show ?thesis by (simp add: get_star_velocity_def)
  next
    case False
    let ?st = "\<lparr>count_7_days = 0, current_page = last_page total_stars,
                pages_checked = 0, requested = []\<rparr>"
    have g: "get_star_velocity stargazers now owner repo total_stars
               = walk (stargazers owner repo) (now - timedelta_days 7) ?st"
      using False by (simp add: get_star_velocity_def)
    obtain new where
      "fetches (walk (stargazers owner repo) (now - timedelta_days 7) ?st) = requested ?st @ new"
      "int (length new) \<le> max 0 (max_pages_to_check - pages_checked ?st)"
      by (rule walk_bounds)
    then show ?thesis unfolding g by (simp add: max_pages_to_check_def)
  qed
  then show ?thesis by (simp add: get_star_velocity_def)
qed

subsection \<open>C5: the first page requested\<close>

lemma history_pages_div: "history_pages n = - ((- n) div 100)"
  unfolding history_pages_def
  using ceiling_divide_eq_div [of n 100] by simp

lemma history_pages_not_multiple:
  assumes "n mod 100 \<noteq> 0"
  shows "history_pages n = n div 100 + 1"
proof -
  have "(- n) div 100 = - (n div 100) - 1"
    using assms by (simp add: zdiv_zminus1_eq_if)
  then show ?thesis by (simp add: history_pages_div)
qed

text \<open>
  C5, as amended. For every \<open>total_stars\<close> from 1 on that is not a multiple of 100, the
  first page \<open>get_star_velocity\<close> requests is \<open>total_stars div 100 + 1\<close> clamped to at
  most 400, which is the smaller of 400 and \<open>N\<close>, the number of pages of a history of
  \<open>total_stars\<close> events; below 40000 stars it is \<open>N\<close>, the last page of the history.
\<close>

theorem first_page_requested:
  assumes "1 \<le> total_stars" and "total_stars mod 100 \<noteq> 0"
  shows "(\<exists>rest. fetches (get_star_velocity stargazers now owner repo total_stars)
                    = last_page total_stars # rest)
         \<and> last_page total_stars = min (total_stars div 100 + 1) 400
         \<and> last_page total_stars = min (history_pages total_stars) 400
         \<and> (total_stars < 40000 \<longrightarrow> last_page total_stars = history_pages total_stars)"
proof -
  let ?st = "\<lparr>count_7_days = 0, current_page = last_page total_stars,
              pages_checked = 0, requested = []\<rparr>"
  have pos: "0 < last_page total_stars"
    using assms(1) by (simp add: last_page_min)
  have g: "get_star_velocity stargazers now owner repo total_stars
             = walk (stargazers owner repo) (now - timedelta_days 7) ?st"
    using assms(1) by (simp add: get_star_velocity_def)
  have "pages_checked ?st < max_pages_to_check \<and> current_page ?st > 0"
    using pos by (simp add: max_pages_to_check_def)
  from walk_first_request [OF this]
  have first: "\<exists>rest. fetches (get_star_velocity stargazers now owner repo total_stars)
                    = last_page total_stars # rest"
    unfolding g by simp
  have hp: "history_pages total_stars = total_stars div 100 + 1"
    by (rule history_pages_not_multiple [OF assms(2)])
  have small: "total_stars < 40000 \<Longrightarrow> total_stars div 100 + 1 \<le> 400"
    by simp
  show ?thesis
    using first hp small by (auto simp: last_page_min)
qed

text \<open>
  C5, as stated, fails: with 40001 stars the history has 401 pages and the first page
  requested is 400, which is not the page of the newest events.
\<close>

theorem first_page_before_last_page:
  "last_page 40001 = 400 \<and> history_pages 40001 = 401
   \<and> \<not> (last_page 40001 = history_pages 40001)"
  by (simp add: last_page_min history_pages_div)

text \<open>C5, witness: 150 stars, two pages, and the first page requested is 2.\<close>

theorem first_page_requested_witness:
  "(1::int) \<le> 150 \<and> (150::int) mod 100 \<noteq> 0 \<and> (150::int) < 40000
   \<and> (\<exists>rest. fetches (get_star_velocity (\<lambda>owner repo. listing [1..150]) 0 ''o'' ''r'' 150) = 2 # rest)
   \<and> last_page 150 = 2 \<and> history_pages 150 = 2"
proof -
  have h1: "(1::int) \<le> 150" and h2: "(150::int) mod 100 \<noteq> 0" and h3: "(150::int) < 40000"
    by simp_all
  have l: "last_page 150 = 2" by (simp add: last_page_min)
  show ?thesis
    using first_page_requested [OF h1 h2, of "\<lambda>owner repo. listing [1..150]" 0 "''o''" "''r''"] h3 l
    by simp
qed

text \<open>
  At a multiple of 100 the page computed is one past the last page of the history:
  with 100 stars the history is one page and the first page requested is 2.
\<close>

lemma first_page_past_last_page:
  "last_page 100 = 2 \<and> history_pages 100 = 1"
  by (simp add: last_page_min history_pages_div)

subsection \<open>C6: a page that fails ends the walk with the count so far\<close>

lemma scan_passed:
  "\<forall>s\<in>set pre. counted cutoff_date s \<or> skipped s \<Longrightarrow>
     scan cutoff_date (pre @ rest) c
       = scan cutoff_date rest (c + int (length (filter (counted cutoff_date) pre)))"
proof (induction pre arbitrary: c)
  case Nil
  then show ?case by simp
next
  case (Cons s pre)
  from Cons.prems have s: "counted cutoff_date s \<or> skipped s"
    and rest: "\<forall>s\<in>set pre. counted cutoff_date s \<or> skipped s"
    by simp_all
  from s show ?case
  proof
    assume cs: "counted cutoff_date s"
    then obtain t where "s = Obj (StrTime t)" "t > cutoff_date"
      by (auto simp: counted_def split: star.splits starred_at.splits)
    then show ?thesis
      using Cons.IH [OF rest] cs
      by (simp add: star_get_def truthy_def strptime_def add.assoc)
  next
    assume sk: "skipped s"
    then have nc: "\<not> counted cutoff_date s"
      by (auto simp: skipped_def counted_def)
    from sk show ?thesis
      using Cons.IH [OF rest] nc
      by (auto simp: skipped_def star_get_def truthy_def)
  qed
qed

lemma scan_raising:
  "raising bad \<Longrightarrow> \<exists>e. scan cutoff_date (bad # post) c = (Raise e, c)"
  by (auto simp: raising_def star_get_def truthy_def strptime_def)

lemma try_body_failed:
  "failed_fetch (fetch (current_page st)) \<Longrightarrow>
     \<exists>sg. sg \<noteq> Fallthrough \<and>
       try_body fetch cutoff_date st = (sg, st\<lparr>requested := requested st @ [current_page st]\<rparr>)"
  by (auto simp: failed_fetch_def try_body_def Let_def split: response.splits body.splits)

text \<open>
  C6. In any iteration of the walk (the budget is not used up and the page number is
  positive): if the request fails, has a status other than 200, a body that does not
  decode or no events, the call returns the count accumulated so far; if an event of the
  page makes the scan raise, the call returns the count so far plus the events of the
  page counted before it; and whatever exception the body of the \<open>try\<close> raises, the call
  returns the count reached, so no exception leaves \<open>get_star_velocity\<close>.
\<close>

theorem failed_page_gives_partial_count:
  assumes "pages_checked st < 5" and "current_page st > 0"
  shows "(failed_fetch (fetch (current_page st)) \<longrightarrow>
            walk fetch cutoff_date st
              = \<lparr>velocity = count_7_days st, fetches = requested st @ [current_page st]\<rparr>)
       \<and> (fetch (current_page st) = Reply 200 (JArray data) \<and> rev data = pre @ bad # post
            \<and> (\<forall>s\<in>set pre. counted cutoff_date s \<or> skipped s) \<and> raising bad \<longrightarrow>
            walk fetch cutoff_date st
              = \<lparr>velocity = count_7_days st + int (length (filter (counted cutoff_date) pre)),
                 fetches = requested st @ [current_page st]\<rparr>)
       \<and> (try_body fetch cutoff_date st = (Raise e, st') \<longrightarrow>
            walk fetch cutoff_date st = finish st')"
proof -
  have cond: "pages_checked st < max_pages_to_check \<and> current_page st > 0"
    using assms by (simp add: max_pages_to_check_def)
  have a: "walk fetch cutoff_date st
              = \<lparr>velocity = count_7_days st, fetches = requested st @ [current_page st]\<rparr>"
    if "failed_fetch (fetch (current_page st))"
  proof -
    from that try_body_failed [where fetch = fetch and st = st and cutoff_date = cutoff_date]
    obtain sg where
      "sg \<noteq> Fallthrough"
      "try_body fetch cutoff_date st = (sg, st\<lparr>requested := requested st @ [current_page st]\<rparr>)"
      by blast
    then show ?thesis using walk_step [OF cond] by (simp add: finish_def)
  qed
  have b: "walk fetch cutoff_date st
              = \<lparr>velocity = count_7_days st + int (length (filter (counted cutoff_date) pre)),
                 fetches = requested st @ [current_page st]\<rparr>"
    if f: "fetch (current_page st) = Reply 200 (JArray data)" and r: "rev data = pre @ bad # post"
      and p: "\<forall>s\<in>set pre. counted cutoff_date s \<or> skipped s" and bad: "raising bad"
  proof -
    from r have ne: "data \<noteq> []" by auto
    from scan_raising [OF bad] obtain x where
      "scan cutoff_date (bad # post) (count_7_days st + int (length (filter (counted cutoff_date) pre)))
         = (Raise x, count_7_days st + int (length (filter (counted cutoff_date) pre)))"
      by blast
    then have sc: "scan cutoff_date (rev data) (count_7_days st)
         = (Raise x, count_7_days st + int (length (filter (counted cutoff_date) pre)))"
      unfolding r scan_passed [OF p] .
    have "try_body fetch cutoff_date st
            = (Raise x, st\<lparr>requested := requested st @ [current_page st],
                 count_7_days := count_7_days st + int (length (filter (counted cutoff_date) pre))\<rparr>)"
      using f ne sc by (simp add: try_body_def Let_def)
    then show ?thesis using walk_step [OF cond] by (simp add: finish_def)
  qed
  have c: "walk fetch cutoff_date st = finish st'"
    if "try_body fetch cutoff_date st = (Raise e, st')"
    using walk_step [OF cond that] by simp
  from a b c show ?thesis by blast
qed

text \<open>
  C6, witness: a second page whose request fails after a first page with one event of
  the last week, and a page whose oldest event has a malformed timestamp, after a
  recent event and one without timestamp. Both calls return 1.
\<close>

theorem failed_page_gives_partial_count_witness:
  "walk (\<lambda>page. if page = 2 then Reply 200 (JArray [Obj (StrTime 10)]) else TransportError) 0
      \<lparr>count_7_days = 1, current_page = 1, pages_checked = 1, requested = [2]\<rparr>
     = \<lparr>velocity = 1, fetches = [2, 1]\<rparr>
   \<and> walk (\<lambda>page. Reply 200 (JArray [Obj StrOther, Obj Absent, Obj (StrTime 11)])) 0
      \<lparr>count_7_days = 0, current_page = 1, pages_checked = 0, requested = []\<rparr>
     = \<lparr>velocity = 1, fetches = [1]\<rparr>"
proof -
  let ?fa = "\<lambda>page::int. if page = 2 then Reply 200 (JArray [Obj (StrTime 10)]) else TransportError"
  let ?sa = "\<lparr>count_7_days = 1, current_page = 1, pages_checked = 1, requested = [2]\<rparr>"
  let ?fb = "\<lambda>page::int. Reply 200 (JArray [Obj StrOther, Obj Absent, Obj (StrTime 11)])"
  let ?sb = "\<lparr>count_7_days = 0, current_page = 1, pages_checked = 0, requested = []\<rparr>"
  have a1: "pages_checked ?sa < 5" and a2: "current_page ?sa > 0"
    by simp_all
  have a3: "failed_fetch (?fa (current_page ?sa))"
    by (simp add: failed_fetch_def)
  have a4: "try_body ?fa 0 ?sa = (Raise RequestException, ?sa\<lparr>requested := [2, 1]\<rparr>)"
    by (simp add: try_body_def)
  have b1: "pages_checked ?sb < 5" and b2: "current_page ?sb > 0"
    by simp_all
  have b3: "?fb (current_page ?sb) = Reply 200 (JArray [Obj StrOther, Obj Absent, Obj (StrTime 11)])
      \<and> rev [Obj StrOther, Obj Absent, Obj (StrTime 11)] = [Obj (StrTime 11), Obj Absent] @ Obj StrOther # []
      \<and> (\<forall>s\<in>set [Obj (StrTime 11), Obj Absent]. counted 0 s \<or> skipped s) \<and> raising (Obj StrOther)"
    by (simp add: counted_def skipped_def raising_def)
  have b4: "int (length (filter (counted 0) [Obj (StrTime 11), Obj Absent])) = 1"
    by (simp add: counted_def)
  note A = failed_page_gives_partial_count [OF a1 a2, where fetch = ?fa and cutoff_date = 0
      and e = RequestException and st' = "?sa\<lparr>requested := [2, 1]\<rparr>"]
  note B = failed_page_gives_partial_count [OF b1 b2, where fetch = ?fb and cutoff_date = 0
      and data = "[Obj StrOther, Obj Absent, Obj (StrTime 11)]"
      and pre = "[Obj (StrTime 11), Obj Absent]" and bad = "Obj StrOther" and post = "[]"]
  have "walk ?fa 0 ?sa = \<lparr>velocity = 1, fetches = [2, 1]\<rparr>"
    using A a3 a4 by simp
  moreover have "walk ?fb 0 ?sb = \<lparr>velocity = 1, fetches = [1]\<rparr>"
    using B b3 b4 by simp
  ultimately show ?thesis by simp
qed

text \<open>The first state of the witness is the one a call with 150 stars reaches.\<close>

lemma partial_count_example:
  "get_star_velocity
     (\<lambda>owner repo page. if page = 2 then Reply 200 (JArray [Obj (StrTime 10)]) else TransportError)
     604800000000 ''o'' ''r'' 150
   = \<lparr>velocity = 1, fetches = [2, 1]\<rparr>"
  by code_simp

subsection \<open>C7: a failed search gives no rows\<close>

text \<open>
  C7. For every topic, if the search request fails in transport, has a status other than
  200 or a body that does not decode, \<open>fetch_repos\<close> returns the empty list, and the scan
  then has no rows. Both are values: nothing is raised.
\<close>

theorem failed_search_gives_no_rows:
  "(failed_search (search topic limit) \<longrightarrow> fetch_repos search topic limit = [])
   \<and> (failed_search (search_endpoint w topic 30) \<longrightarrow> run_scan w topic = [])"
proof -
  have f: "fetch_repos s t l = []" if "failed_search (s t l)" for s t l
    using that
    by (auto simp: failed_search_def fetch_repos_def fetch_repos_try_def
        split: search_response.splits search_body.splits)
  then show ?thesis
    by (auto simp: run_scan_def)
qed

text \<open>C7, witness: a search endpoint that answers 500.\<close>

theorem failed_search_gives_no_rows_witness:
  "failed_search (search_endpoint broken_world ''rust'' 30)
   \<and> fetch_repos (search_endpoint broken_world) ''rust'' 30 = []
   \<and> run_scan broken_world ''rust'' = []"
proof -
  have h: "failed_search (search_endpoint broken_world ''rust'' 30)"
    by (simp add: failed_search_def broken_world_def)
  show ?thesis
    using h failed_search_gives_no_rows
      [where search = "search_endpoint broken_world" and topic = "''rust''" and limit = 30
         and w = broken_world]
    by simp
qed

subsection \<open>C8: one row per repository, sorted by velocity\<close>

lemma scan_loop_enumerate:
  "scan_loop w i rs results = results @ map (\<lambda>(j, r). analyze w j r) (List.enumerate i rs)"
  by (induction rs arbitrary: i results) simp_all

lemma analyze_fields:
  "analyze w i r =
     \<lparr>Name = name r, Description = description r, Stars = stargazers_count r,
      Velocity_7d = velocity (get_star_velocity (stargazers_endpoint w) (clock w i)
                                (owner_login r) (name r) (stargazers_count r)),
      Bucket = bucket_repo
                 (velocity (get_star_velocity (stargazers_endpoint w) (clock w i)
                              (owner_login r) (name r) (stargazers_count r)))
                 (stargazers_count r),
      URL = html_url r, Owner = owner_login r\<rparr>"
  by (simp add: analyze_def Let_def)

lemma sort_values_desc_sorted:
  "sorted_wrt (\<lambda>a b. Velocity_7d a \<ge> Velocity_7d b) (sort_values_desc rows)"
proof -
  have "sorted (map (\<lambda>r. - Velocity_7d r) (sort_key (\<lambda>r. - Velocity_7d r) rows))"
    by (rule sorted_sort_key)
  then show ?thesis
    by (simp add: sort_values_desc_def sorted_map)
qed

text \<open>
  C8. When the search gives a non-empty list of repositories, the scan has exactly one
  row per repository: its rows are, in another order, one row for each repository of
  the list, with the repository's name, description, stars, URL and owner, with the
  velocity \<open>get_star_velocity\<close> returns for that repository, and with the bucket
  \<open>bucket_repo\<close> gives that velocity and the stars. A repository whose estimation
  returns 0 has its row, with velocity 0 and the bucket of velocity 0. The rows are in
  descending order of velocity.
\<close>

theorem one_row_per_repository_sorted:
  assumes "fetch_repos (search_endpoint w) topic 30 = repos" and "repos \<noteq> []"
  shows "length (run_scan w topic) = length repos
       \<and> mset (run_scan w topic)
           = mset (map (\<lambda>(i, r).
                \<lparr>Name = name r, Description = description r, Stars = stargazers_count r,
                 Velocity_7d = velocity (get_star_velocity (stargazers_endpoint w) (clock w i)
                                           (owner_login r) (name r) (stargazers_count r)),
                 Bucket = bucket_repo
                            (velocity (get_star_velocity (stargazers_endpoint w) (clock w i)
                                         (owner_login r) (name r) (stargazers_count r)))
                            (stargazers_count r),
                 URL = html_url r, Owner = owner_login r\<rparr>)
              (List.enumerate 0 repos))
       \<and> sorted_wrt (\<lambda>a b. Velocity_7d a \<ge> Velocity_7d b) (run_scan w topic)
       \<and> (\<forall>x\<in>set (run_scan w topic). Bucket x = bucket_repo (Velocity_7d x) (Stars x))
       \<and> (\<forall>i<length repos.
             velocity (get_star_velocity (stargazers_endpoint w) (clock w i)
                         (owner_login (repos ! i)) (name (repos ! i)) (stargazers_count (repos ! i))) = 0
             \<longrightarrow> \<lparr>Name = name (repos ! i), Description = description (repos ! i),
                    Stars = stargazers_count (repos ! i), Velocity_7d = 0,
                    Bucket = bucket_repo 0 (stargazers_count (repos ! i)),
                    URL = html_url (repos ! i), Owner = owner_login (repos ! i)\<rparr>
                  \<in> set (run_scan w topic))"
proof -
  let ?row = "\<lambda>(i, r).
      \<lparr>Name = name r, Description = description r, Stars = stargazers_count r,
       Velocity_7d = velocity (get_star_velocity (stargazers_endpoint w) (clock w i)
                                 (owner_login r) (name r) (stargazers_count r)),
       Bucket = bucket_repo
                  (velocity (get_star_velocity (stargazers_endpoint w) (clock w i)
                               (owner_login r) (name r) (stargazers_count r)))
                  (stargazers_count r),
       URL = html_url r, Owner = owner_login r\<rparr>"
  let ?rows = "map ?row (List.enumerate 0 repos)"
  have same: "map (\<lambda>(i, r). analyze w i r) (List.enumerate 0 repos) = ?rows"
    by (rule map_cong [OF refl]) (auto simp: analyze_fields)
  have ne: "?rows \<noteq> []" using assms(2) by (simp add: enumerate_eq_zip)
  have rs: "run_scan w topic = sort_values_desc ?rows"
    using assms(1) ne unfolding same [symmetric]
    by (simp add: run_scan_def scan_loop_enumerate)
  have m: "mset (sort_values_desc ?rows) = mset ?rows"
    by (simp add: sort_values_desc_def)
  have l: "length (sort_values_desc ?rows) = length repos"
    by (simp add: sort_values_desc_def)
  have st: "set (sort_values_desc ?rows) = set ?rows"
    by (simp add: sort_values_desc_def)
  have b: "\<forall>x\<in>set (sort_values_desc ?rows). Bucket x = bucket_repo (Velocity_7d x) (Stars x)"
    unfolding st by auto
  have z: "\<lparr>Name = name (repos ! i), Description = description (repos ! i),
             Stars = stargazers_count (repos ! i), Velocity_7d = 0,
             Bucket = bucket_repo 0 (stargazers_count (repos ! i)),
             URL = html_url (repos ! i), Owner = owner_login (repos ! i)\<rparr>
           \<in> set (sort_values_desc ?rows)"
    if i: "i < length repos"
      and v: "velocity (get_star_velocity (stargazers_endpoint w) (clock w i)
                (owner_login (repos ! i)) (name (repos ! i)) (stargazers_count (repos ! i))) = 0"
    for i
  proof -
    have "List.enumerate 0 repos ! i = (i, repos ! i)"
      using i by (simp add: nth_enumerate_eq)
    moreover have "i < length (List.enumerate 0 repos)" using i by simp
    ultimately have "(i, repos ! i) \<in> set (List.enumerate 0 repos)"
      by (metis nth_mem)
    then have "?row (i, repos ! i) \<in> ?row ` set (List.enumerate 0 repos)" by (rule imageI)
    then have "?row (i, repos ! i) \<in> set ?rows" by (simp only: set_map)
    then show ?thesis unfolding st using v by simp
  qed
  show ?thesis
    unfolding rs using m l b z sort_values_desc_sorted by blast
qed

text \<open>
  An example: a repository of 50000 stars whose listing answers 500 gets velocity 0 and
  is kept, as \<open>BreakoutHuge\<close>; it comes after the one with velocity 2.
\<close>

lemma example_scan:
  "map (\<lambda>x. (Name x, Stars x, Velocity_7d x, Bucket x)) (run_scan example_world ''rust'')
     = [(''small'', 3, 2, Early), (''big'', 50000, 0, BreakoutHuge)]"
  by code_simp

text \<open>
  C8, witness: the example above; the row of the repository with velocity 0 is among
  the rows.
\<close>

theorem one_row_per_repository_sorted_witness:
  "fetch_repos (search_endpoint example_world) ''rust'' 30 = example_repos \<and> example_repos \<noteq> []
   \<and> length (run_scan example_world ''rust'') = 2
   \<and> sorted_wrt (\<lambda>a b. Velocity_7d a \<ge> Velocity_7d b) (run_scan example_world ''rust'')
   \<and> list_all (\<lambda>x. Bucket x = bucket_repo (Velocity_7d x) (Stars x)) (run_scan example_world ''rust'')
   \<and> \<lparr>Name = ''big'', Description = None, Stars = 50000, Velocity_7d = 0,
       Bucket = BreakoutHuge, URL = ''https://github.com/a/big'', Owner = ''a''\<rparr>
        \<in> set (run_scan example_world ''rust'')"
proof -
  have h1: "fetch_repos (search_endpoint example_world) ''rust'' 30 = example_repos"
    by (simp add: example_world_def fetch_repos_def fetch_repos_try_def)
  have h2: "example_repos \<noteq> []"
    by (simp add: example_repos_def)
  have l: "length example_repos = 2"
    by (simp add: example_repos_def)
  have r0: "example_repos ! 0 = \<lparr>name = ''big'', description = None, stargazers_count = 50000,
       html_url = ''https://github.com/a/big'', owner_login = ''a''\<rparr>"
    by (simp add: example_repos_def)
  have v0: "velocity (get_star_velocity (stargazers_endpoint example_world) (clock example_world 0)
                (owner_login (example_repos ! 0)) (name (example_repos ! 0))
                (stargazers_count (example_repos ! 0))) = 0"
    unfolding r0 by code_simp
  have b0: "bucket_repo 0 50000 = BreakoutHuge" by (simp add: bucket_repo_def)
  note T = one_row_per_repository_sorted [OF h1 h2]
  from T have "\<lparr>Name = name (example_repos ! 0), Description = description (example_repos ! 0),
                    Stars = stargazers_count (example_repos ! 0), Velocity_7d = 0,
                    Bucket = bucket_repo 0 (stargazers_count (example_repos ! 0)),
                    URL = html_url (example_repos ! 0), Owner = owner_login (example_repos ! 0)\<rparr>
                  \<in> set (run_scan example_world ''rust'')"
    using v0 l by simp
  then have big: "\<lparr>Name = ''big'', Description = None, Stars = 50000, Velocity_7d = 0,
       Bucket = BreakoutHuge, URL = ''https://github.com/a/big'', Owner = ''a''\<rparr>
        \<in> set (run_scan example_world ''rust'')"
    unfolding r0 using b0 by simp
  show ?thesis
    using h1 h2 l T big
    by (simp add: list_all_iff)
qed

subsection \<open>C9: events without a timestamp\<close>

text \<open>
  C9. In the scan of a page, an event whose \<open>starred_at\<close> is missing, \<open>null\<close> or the
  empty string is skipped: the scan goes on with the next event of the page with the
  count unchanged, so the event is neither counted nor a reason to return.
\<close>

theorem falsy_starred_at_skipped:
  "scan cutoff_date (Obj Absent # rest) c = scan cutoff_date rest c
   \<and> scan cutoff_date (Obj Null # rest) c = scan cutoff_date rest c
   \<and> scan cutoff_date (Obj Str0 # rest) c = scan cutoff_date rest c"
  by (simp add: star_get_def truthy_def)

subsection \<open>C10: the window is seven days\<close>


end
